theory Spec2Isabelle
  imports
    Main
    "HOL-Library.Char_ord"
    "HOL-Library.List_Lexorder"
    "HOL-Library.Product_Lexorder"
begin

section \<open>Calendar dates\<close>

text \<open>
  The recurrence engine works on JavaScript \<^verbatim>\<open>Date\<close> values that are always local
  midnights: \<^verbatim>\<open>parseISO\<close> of a date-only string, \<^verbatim>\<open>new Date(today + 'T00:00:00')\<close>,
  and \<^verbatim>\<open>addDays\<close>/\<^verbatim>\<open>setDate\<close> applied to those. Such a value is modelled by the number
  of its calendar day, counted from 1970-01-01 in the proleptic Gregorian calendar, which
  is the calendar of JavaScript. An Invalid Date is \<open>None\<close> in a \<open>Date option\<close>.
  Time zones, daylight saving and the time of day are outside the model.
\<close>

type_synonym Date = int

text \<open>Day number of the civil date \<open>y-m-d\<close> (month \<open>1..12\<close>), and its inverse.\<close>

definition daysFromCivil :: "int \<Rightarrow> int \<Rightarrow> int \<Rightarrow> Date" where
  "daysFromCivil y m d =
     (let y' = (if m \<le> 2 then y - 1 else y);
          era = y' div 400;
          yoe = y' - era * 400;
          doy = (153 * (m + (if m > 2 then - 3 else 9)) + 2) div 5 + d - 1;
          doe = yoe * 365 + yoe div 4 - yoe div 100 + doy
      in era * 146097 + doe - 719468)"

definition civilFromDays :: "Date \<Rightarrow> int \<times> int \<times> int" where
  "civilFromDays z =
     (let z' = z + 719468;
          era = z' div 146097;
          doe = z' - era * 146097;
          yoe = (doe - doe div 1460 + doe div 36524 - doe div 146096) div 365;
          doy = doe - (365 * yoe + yoe div 4 - yoe div 100);
          mp = (5 * doy + 2) div 153;
          d = doy - (153 * mp + 2) div 5 + 1;
          m = (if mp < 10 then mp + 3 else mp - 9);
          y = yoe + era * 400
      in (if m \<le> 2 then y + 1 else y, m, d))"

definition getFullYear :: "Date \<Rightarrow> int" where
  "getFullYear z = fst (civilFromDays z)"

text \<open>\<^verbatim>\<open>getMonth\<close> is zero-based: January is 0.\<close>

definition getMonth :: "Date \<Rightarrow> int" where
  "getMonth z = fst (snd (civilFromDays z)) - 1"

definition getDate :: "Date \<Rightarrow> int" where
  "getDate z = snd (snd (civilFromDays z))"

text \<open>\<^verbatim>\<open>getDay\<close>: 0 is Sunday, 1 is Monday; 1970-01-01 was a Thursday.\<close>

definition getDay :: "Date \<Rightarrow> int" where
  "getDay z = (z + 4) mod 7"

definition addDays :: "Date \<Rightarrow> int \<Rightarrow> Date" where
  "addDays z n = z + n"

text \<open>
  \<^verbatim>\<open>startOfWeek(date, { weekStartsOn: 1 })\<close> of date-fns:
  \<^verbatim>\<open>diff = (day < weekStartsOn ? 7 : 0) + day - weekStartsOn; setDate(getDate() - diff)\<close>.
\<close>

definition startOfWeek :: "Date \<Rightarrow> Date" where
  "startOfWeek z =
     (let day = getDay z; diff = (if day < 1 then 7 else 0) + day - 1 in z - diff)"

text \<open>
  \<^verbatim>\<open>differenceInCalendarWeeks(later, earlier, { weekStartsOn: 1 })\<close> of date-fns:
  \<^verbatim>\<open>Math.round((startOfWeek(later) - startOfWeek(earlier)) / millisecondsInWeek)\<close>,
  here with days for milliseconds; \<^verbatim>\<open>Math.round (n / 7)\<close> is \<open>(2 * n + 7) div 14\<close>.
\<close>

definition differenceInCalendarWeeks :: "Date \<Rightarrow> Date \<Rightarrow> int" where
  "differenceInCalendarWeeks later earlier =
     (2 * (startOfWeek later - startOfWeek earlier) + 7) div 14"

text \<open>The remainder operator \<^verbatim>\<open>%\<close> of JavaScript truncates towards zero.\<close>

definition js_rem :: "int \<Rightarrow> int \<Rightarrow> int" where
  "js_rem a b = sgn a * (\<bar>a\<bar> mod \<bar>b\<bar>)"

subsection \<open>Reading and printing dates\<close>

text \<open>The value of a decimal digit, by its character code; \<open>None\<close> for any other character.\<close>

definition digitVal :: "char \<Rightarrow> int option" where
  "digitVal c =
     (let code = (of_char c :: nat)
      in if 48 \<le> code \<and> code \<le> 57 then Some (int code - 48) else None)"

fun parseDigits :: "int \<Rightarrow> string \<Rightarrow> int option" where
  "parseDigits acc [] = Some acc"
| "parseDigits acc (c # cs) =
     (case digitVal c of None \<Rightarrow> None | Some v \<Rightarrow> parseDigits (10 * acc + v) cs)"

definition isLeapYearIndex :: "int \<Rightarrow> bool" where
  "isLeapYearIndex year = (year mod 400 = 0 \<or> (year mod 4 = 0 \<and> year mod 100 \<noteq> 0))"

text \<open>
  \<^verbatim>\<open>validateDate\<close> of date-fns, on a zero-based month:
  \<^verbatim>\<open>DAYS_IN_MONTH = [31, null, 31, 30, 31, 30, 31, 31, 30, 31, 30, 31]\<close>.
\<close>

definition validateDate :: "int \<Rightarrow> int \<Rightarrow> int \<Rightarrow> bool" where
  "validateDate year month day =
     (0 \<le> month \<and> month \<le> 11 \<and> 1 \<le> day \<and>
      day \<le> (if month = 1 then (if isLeapYearIndex year then 29 else 28)
              else [31, 0, 31, 30, 31, 30, 31, 31, 30, 31, 30, 31] ! nat month))"

text \<open>
  Modelled from the spec: \<^verbatim>\<open>parseISO\<close> belongs to the date-fns library. The event
  record documents \<^verbatim>\<open>fecha\<close> as \<^verbatim>\<open>YYYY-MM-DD\<close> and the spec names ISO 8601 calendar dates
  in that form as the input, so the model reads exactly the form of four digits, a dash,
  two digits, a dash, two digits, checks the month and the day of the month as the
  library does, and gives the Invalid Date for every other string.
\<close>

definition parseISO :: "string \<Rightarrow> Date option" where
  "parseISO s =
     (if length s = 10 \<and> s ! 4 = CHR ''-'' \<and> s ! 7 = CHR ''-'' then
        (case (parseDigits 0 (take 4 s), parseDigits 0 (take 2 (drop 5 s)),
               parseDigits 0 (drop 8 s)) of
           (Some year, Some mm, Some day) \<Rightarrow>
             if validateDate year (mm - 1) day then Some (daysFromCivil year mm day)
             else None
         | _ \<Rightarrow> None)
      else None)"

fun showNat :: "nat \<Rightarrow> string" where
  "showNat n =
     (if n < 10 then [''0123456789'' ! n]
      else showNat (n div 10) @ [''0123456789'' ! (n mod 10)])"

text \<open>
  \<^verbatim>\<open>addLeadingZeros(number, targetLength)\<close> of date-fns: the sign, then the absolute
  value padded on the left with zeros.
\<close>

definition addLeadingZeros :: "int \<Rightarrow> nat \<Rightarrow> string" where
  "addLeadingZeros number targetLength =
     (let output = showNat (nat \<bar>number\<bar>)
      in (if number < 0 then ''-'' else '''') @
         replicate (targetLength - length output) CHR ''0'' @ output)"

text \<open>
  \<^verbatim>\<open>format(d, 'yyyy-MM-dd')\<close> of date-fns. The token \<^verbatim>\<open>yyyy\<close> prints the year of the
  era: \<^verbatim>\<open>signedYear > 0 ? signedYear : 1 - signedYear\<close>.
\<close>

definition format :: "Date \<Rightarrow> string" where
  "format z =
     (let signedYear = getFullYear z;
          year = (if signedYear > 0 then signedYear else 1 - signedYear)
      in addLeadingZeros year 4 @ ''-'' @ addLeadingZeros (getMonth z + 1) 2 @ ''-'' @
         addLeadingZeros (getDate z) 2)"

section \<open>Events\<close>

datatype Recurrence = none | daily | weekly | biweekly | monthly | yearly

text \<open>
  The row type \<^verbatim>\<open>Evento\<close>. The field \<^verbatim>\<open>id\<close> is \<open>evento_id\<close> here. A value that may be
  \<^verbatim>\<open>null\<close> is an option.
\<close>

record Evento =
  evento_id :: string
  titulo :: string
  descripcion :: string
  fecha :: string
  user_id :: "string option"
  es_todo_el_dia :: bool
  hora_inicio :: "string option"
  hora_fin :: "string option"
  video_url :: "string option"
  recurrence :: "Recurrence option"
  exception_dates :: "string list option"

text \<open>\<^verbatim>\<open>e.recurrence ?? 'none'\<close>\<close>

definition recurrenceOrNone :: "Evento \<Rightarrow> Recurrence" where
  "recurrenceOrNone e = (case recurrence e of None \<Rightarrow> none | Some r \<Rightarrow> r)"

text \<open>\<^verbatim>\<open>event.exception_dates && event.exception_dates.includes(targetDateStr)\<close>\<close>

definition isException :: "Evento \<Rightarrow> string \<Rightarrow> bool" where
  "isException event targetDateStr =
     (case exception_dates event of None \<Rightarrow> False | Some xs \<Rightarrow> targetDateStr \<in> set xs)"

section \<open>The occurrence predicate\<close>

text \<open>
  \<^verbatim>\<open>shouldShowOnDate\<close>, branch by branch. An empty string is falsy. Nothing in the body
  throws on values of the declared types, so the \<^verbatim>\<open>catch\<close> that returns \<^verbatim>\<open>false\<close> has no
  branch of its own; with \<^verbatim>\<open>Recurrence\<close> a closed type, the \<^verbatim>\<open>default\<close> of the switch is
  the case \<open>none\<close>, which the earlier return already covers.
\<close>

definition shouldShowOnDate :: "Evento \<Rightarrow> string \<Rightarrow> bool" where
  "shouldShowOnDate event targetDateStr =
     (if fecha event = [] \<or> targetDateStr = [] then False
      else if isException event targetDateStr then False
      else if fecha event = targetDateStr then True
      else if recurrenceOrNone event = none then False
      else
        (case (parseISO (fecha event), parseISO targetDateStr) of
           (Some origin, Some target) \<Rightarrow>
             if target < origin then False
             else
               (case recurrenceOrNone event of
                  daily \<Rightarrow> True
                | weekly \<Rightarrow> getDay target = getDay origin
                | biweekly \<Rightarrow>
                    if getDay target \<noteq> getDay origin then False
                    else js_rem (differenceInCalendarWeeks target origin) 2 = 0
                | monthly \<Rightarrow> getDate target = getDate origin
                | yearly \<Rightarrow>
                    getDate target = getDate origin \<and> getMonth target = getMonth origin
                | none \<Rightarrow> False)
         | _ \<Rightarrow> False))"


section \<open>The window projector\<close>

text \<open>
  \<^verbatim>\<open>eventMarks\<close> builds a JavaScript object keyed by date strings: a map from strings
  to marks. The optional fields of a mark are options.
\<close>

record Mark =
  marked :: bool
  dotColor :: string
  selectedColor :: "string option"
  selected :: "bool option"

definition COLORS_primary :: string where
  "COLORS_primary = ''#4A90D9''"

text \<open>One round of the loop body, for the offset \<open>i\<close>.\<close>

definition markDay :: "Evento list \<Rightarrow> Date \<Rightarrow> (string \<rightharpoonup> Mark) \<Rightarrow> nat \<Rightarrow> (string \<rightharpoonup> Mark)" where
  "markDay evs rangeStart marks i =
     (let d = addDays rangeStart (int i);
          dateStr = format d;
          hasEvent = list_ex (\<lambda>evt. shouldShowOnDate evt dateStr) evs
      in if hasEvent
         then marks(dateStr \<mapsto>
                \<lparr>marked = True, dotColor = COLORS_primary, selectedColor = None, selected = None\<rparr>)
         else marks)"

text \<open>\<^verbatim>\<open>for (let i = 0; i < RANGE_DAYS; i++)\<close>, from the empty object.\<close>

definition markRange :: "Evento list \<Rightarrow> Date \<Rightarrow> nat \<Rightarrow> (string \<rightharpoonup> Mark)" where
  "markRange evs rangeStart rangeDays = foldl (markDay evs rangeStart) Map.empty [0..<rangeDays]"

definition RANGE_DAYS :: nat where
  "RANGE_DAYS = 90"

text \<open>\<^verbatim>\<open>eventMarks\<close>, with the clock's \<^verbatim>\<open>new Date()\<close> as the argument \<open>today\<close>.\<close>

definition eventMarks :: "Evento list \<Rightarrow> Date \<Rightarrow> (string \<rightharpoonup> Mark)" where
  "eventMarks evs today = markRange evs (addDays today (- 45)) RANGE_DAYS"

text \<open>\<^verbatim>\<open>marks[d]?.marked\<close>, read as a truth value.\<close>

definition isMarked :: "(string \<rightharpoonup> Mark) \<Rightarrow> string \<Rightarrow> bool" where
  "isMarked marks d = (case marks d of None \<Rightarrow> False | Some m \<Rightarrow> marked m)"

section \<open>The upcoming aggregator\<close>

text \<open>
  A projected event is the object \<^verbatim>\<open>{ ...evt, _projectedDate }\<close>: the event and the date
  it is projected on.
\<close>

record Projected =
  evt :: Evento
  projectedDate :: string

record Group =
  date :: string
  label :: string
  events :: "Projected list"

datatype error = RangeError | TypeError

definition LOOK_AHEAD_DAYS :: nat where
  "LOOK_AHEAD_DAYS = 30"

text \<open>Paso A: the events that do not recur and whose \<^verbatim>\<open>fecha\<close> is after \<^verbatim>\<open>today\<close>,
  compared as strings.\<close>

definition singleEvents :: "Evento list \<Rightarrow> string \<Rightarrow> Projected list" where
  "singleEvents evs today =
     map (\<lambda>e. \<lparr>evt = e, projectedDate = fecha e\<rparr>)
       (filter (\<lambda>e. recurrenceOrNone e = none \<and> fecha e > today) evs)"

text \<open>Paso B: the recurring events, projected on each day \<open>todayDate + i\<close>,
  \<open>1 \<le> i \<le> lookAhead\<close>.\<close>

definition projectDay :: "Evento list \<Rightarrow> Date \<Rightarrow> nat \<Rightarrow> Projected list" where
  "projectDay recurringEvents todayDate i =
     (let d = addDays todayDate (int i);
          dateStr = format d
      in map (\<lambda>e. \<lparr>evt = e, projectedDate = dateStr\<rparr>)
           (filter (\<lambda>e. shouldShowOnDate e dateStr) recurringEvents))"

definition recurringProjection :: "Evento list \<Rightarrow> Date \<Rightarrow> nat \<Rightarrow> Projected list" where
  "recurringProjection evs todayDate lookAhead =
     (let recurringEvents = filter (\<lambda>e. recurrenceOrNone e \<noteq> none) evs
      in if length recurringEvents > 0
         then concat (map (projectDay recurringEvents todayDate) [1..<Suc lookAhead])
         else [])"

text \<open>
  Modelled from the spec: \<^verbatim>\<open>localeCompare\<close> is the collation of the JavaScript engine. On
  the characters of dates and times (digits, the dash, the colon) it orders strings as
  their code units do, the empty string first, which is the order the spec names; the
  model is that order, with results \<open>-1\<close>, \<open>0\<close> and \<open>1\<close>.
\<close>

definition localeCompare :: "string \<Rightarrow> string \<Rightarrow> int" where
  "localeCompare a b = (if a < b then - 1 else if a = b then 0 else 1)"

text \<open>\<^verbatim>\<open>a.hora_inicio ?? ''\<close>\<close>

definition startOrEmpty :: "Projected \<Rightarrow> string" where
  "startOrEmpty p = (case hora_inicio (evt p) of None \<Rightarrow> [] | Some s \<Rightarrow> s)"

text \<open>The comparator handed to \<^verbatim>\<open>sort\<close>.\<close>

definition compareProjected :: "Projected \<Rightarrow> Projected \<Rightarrow> int" where
  "compareProjected a b =
     (let dateComp = localeCompare (projectedDate a) (projectedDate b)
      in if dateComp \<noteq> 0 then dateComp
         else localeCompare (startOrEmpty a) (startOrEmpty b))"

text \<open>
  \<^verbatim>\<open>Array.prototype.sort\<close> with a comparator is a stable sort. The model inserts the
  elements one by one, from the left, each behind the elements that do not compare
  greater: a stable sort too, so that both give the same array for a comparator that is
  an order.
\<close>

fun insertSorted :: "('a \<Rightarrow> 'a \<Rightarrow> int) \<Rightarrow> 'a \<Rightarrow> 'a list \<Rightarrow> 'a list" where
  "insertSorted cmp x [] = [x]"
| "insertSorted cmp x (y # ys) =
     (if cmp x y < 0 then x # y # ys else y # insertSorted cmp x ys)"

definition sortWith :: "('a \<Rightarrow> 'a \<Rightarrow> int) \<Rightarrow> 'a list \<Rightarrow> 'a list" where
  "sortWith cmp xs = foldl (\<lambda>acc x. insertSorted cmp x acc) [] xs"

text \<open>\<^verbatim>\<open>grouped[grouped.length - 1].events.push(evt)\<close>: on an empty array the read is
  \<^verbatim>\<open>undefined\<close> and the access to \<^verbatim>\<open>events\<close> throws a TypeError.\<close>

definition pushToLast :: "Group list \<Rightarrow> Projected \<Rightarrow> error + Group list" where
  "pushToLast grouped p =
     (if grouped = [] then Inl TypeError
      else Inr (butlast grouped @ [(last grouped)\<lparr>events := events (last grouped) @ [p]\<rparr>]))"

text \<open>
  The grouping loop, with its two variables \<^verbatim>\<open>currentDate\<close> and \<^verbatim>\<open>grouped\<close>. The label is
  rendered by \<^verbatim>\<open>format\<close> in the Spanish locale from \<^verbatim>\<open>new Date(currentDate + 'T00:00:00')\<close>
  and the clock; \<^verbatim>\<open>format\<close> throws a RangeError on an Invalid Date. The rendering is the
  parameter \<open>mkLabel\<close>, with \<open>None\<close> where it throws.
\<close>

fun groupLoop ::
  "(string \<Rightarrow> string option) \<Rightarrow> string \<Rightarrow> Group list \<Rightarrow> Projected list \<Rightarrow> error + Group list"
where
  "groupLoop mkLabel currentDate grouped [] = Inr grouped"
| "groupLoop mkLabel currentDate grouped (p # ps) =
     (if projectedDate p \<noteq> currentDate then
        (case mkLabel (projectedDate p) of
           None \<Rightarrow> Inl RangeError
         | Some l \<Rightarrow>
             (case pushToLast
                     (grouped @ [\<lparr>date = projectedDate p, label = l, events = []\<rparr>]) p of
                Inl err \<Rightarrow> Inl err
              | Inr grouped' \<Rightarrow> groupLoop mkLabel (projectedDate p) grouped' ps))
      else
        (case pushToLast grouped p of
           Inl err \<Rightarrow> Inl err
         | Inr grouped' \<Rightarrow> groupLoop mkLabel currentDate grouped' ps))"

text \<open>
  \<^verbatim>\<open>upcomingEvents\<close>. The string \<^verbatim>\<open>today\<close> is \<^verbatim>\<open>format(new Date(), 'yyyy-MM-dd')\<close>, so the
  model takes the date \<open>todayDate\<close> that the clock gives, prints it for \<^verbatim>\<open>today\<close>, and
  uses it for \<^verbatim>\<open>new Date(today + 'T00:00:00')\<close>. The component runs it with
  \<open>LOOK_AHEAD_DAYS\<close> for \<open>lookAhead\<close>.
\<close>

definition upcomingEvents ::
  "(string \<Rightarrow> string option) \<Rightarrow> Evento list \<Rightarrow> Date \<Rightarrow> nat \<Rightarrow> error + Group list"
where
  "upcomingEvents mkLabel evs todayDate lookAhead =
     (let today = format todayDate;
          projectedEvents =
            singleEvents evs today @ recurringProjection evs todayDate lookAhead
      in groupLoop mkLabel [] [] (sortWith compareProjected projectedEvents))"

text \<open>
  A rendering for the examples: it throws where the date string does not parse, and its
  text is the date string itself, since nothing below reads the text of a label.
\<close>

definition plainLabel :: "string \<Rightarrow> string option" where
  "plainLabel s = (case parseISO s of None \<Rightarrow> None | Some d \<Rightarrow> Some s)"

text \<open>The key that the comparator orders by: the projected date, then the start time or
  the empty string.\<close>

definition sortKey :: "Projected \<Rightarrow> string \<times> string" where
  "sortKey p = (projectedDate p, startOrEmpty p)"

text \<open>The output read as one list: each occurrence with the date of its group and its start
  time or the empty string.\<close>

definition flattened :: "Group list \<Rightarrow> (string \<times> string) list" where
  "flattened gs = concat (map (\<lambda>g. map (\<lambda>p. (date g, startOrEmpty p)) (events g)) gs)"

text \<open>The invariant of the grouping loop: no group is empty, the occurrences of a group
  carry the date of the group, and the dates of the groups increase strictly.\<close>

definition wellGrouped :: "Group list \<Rightarrow> bool" where
  "wellGrouped gs =
     ((\<forall>g\<in>set gs. events g \<noteq> [] \<and> (\<forall>p\<in>set (events g). projectedDate p = date g)) \<and>
      sorted_wrt (<) (map date gs))"

section \<open>The spec's reading of the week count\<close>

text \<open>
  The spec counts Monday-starting calendar weeks between two dates. Day \<open>- 3\<close> of the day
  count is a Monday, so the week of day \<open>z\<close> has the index \<open>(z + 3) div 7\<close>, and the
  weeks between two dates are the difference of their indices. This is the reading of
  the spec, to be compared with \<open>differenceInCalendarWeeks\<close>.
\<close>

definition mondayWeek :: "Date \<Rightarrow> int" where
  "mondayWeek z = (z + 3) div 7"

definition spec_weeksBetween :: "Date \<Rightarrow> Date \<Rightarrow> int" where
  "spec_weeksBetween origin target = mondayWeek target - mondayWeek origin"

section \<open>Events for the examples\<close>

definition mkEvento ::
  "string \<Rightarrow> string \<Rightarrow> Recurrence option \<Rightarrow> string option \<Rightarrow> string list option \<Rightarrow> Evento" where
  "mkEvento i f r h x =
     \<lparr>evento_id = i, titulo = ''Evento'', descripcion = [], fecha = f, user_id = None,
      es_todo_el_dia = (h = None), hora_inicio = h, hora_fin = h, video_url = None,
      recurrence = r, exception_dates = x\<rparr>"

definition originExcepted :: Evento where
  "originExcepted = mkEvento ''e1'' ''2024-01-01'' (Some daily) None (Some [''2024-01-01''])"

definition corruptOrigin :: Evento where
  "corruptOrigin = mkEvento ''e2'' ''not-a-date'' (Some daily) None None"

definition singleExcepted :: Evento where
  "singleExcepted = mkEvento ''e3'' ''2024-06-01'' None None (Some [''2024-06-01''])"

definition biweeklyMonday :: Evento where
  "biweeklyMonday = mkEvento ''e4'' ''2024-01-01'' (Some biweekly) (Some ''10:00'') None"

definition monthlyLastDay :: Evento where
  "monthlyLastDay = mkEvento ''e5'' ''2024-01-31'' (Some monthly) None None"

definition singlePlain :: Evento where
  "singlePlain = mkEvento ''e6'' ''2024-06-01'' None None None"

definition dailyPlain :: Evento where
  "dailyPlain = mkEvento ''e7'' ''2024-01-01'' (Some daily) None None"

definition agenda :: "Evento list" where
  "agenda = [singlePlain, biweeklyMonday, dailyPlain]"

definition agendaGroups :: "Group list" where
  "agendaGroups =
     [\<lparr>date = ''2024-01-01'', label = ''2024-01-01'',
       events = [\<lparr>evt = dailyPlain, projectedDate = ''2024-01-01''\<rparr>,
                 \<lparr>evt = biweeklyMonday, projectedDate = ''2024-01-01''\<rparr>]\<rparr>,
      \<lparr>date = ''2024-06-01'', label = ''2024-06-01'',
       events = [\<lparr>evt = singlePlain, projectedDate = ''2024-06-01''\<rparr>]\<rparr>]"

section \<open>Facts about the date functions\<close>

lemmas example_events =
  mkEvento_def originExcepted_def corruptOrigin_def singleExcepted_def biweeklyMonday_def
  monthlyLastDay_def singlePlain_def dailyPlain_def

lemmas predicate_defs =
  shouldShowOnDate_def isException_def recurrenceOrNone_def parseISO_def validateDate_def
  isLeapYearIndex_def daysFromCivil_def civilFromDays_def getDay_def getDate_def getMonth_def
  differenceInCalendarWeeks_def startOfWeek_def js_rem_def digitVal_def Let_def

lemma startOfWeek_mondayWeek: "startOfWeek z = 7 * mondayWeek z - 3"
proof -
  define q r where "q = (z + 3) div 7" and "r = (z + 3) mod 7"
  have z: "z = 7 * q + r - 3"
    unfolding q_def r_def by simp
  have r: "0 \<le> r" "r < 7"
    unfolding r_def by simp_all
  have "z + 4 = (r + 1) + q * 7"
    unfolding z by simp
  then have day: "getDay z = (r + 1) mod 7"
    unfolding getDay_def by (simp only: mod_mult_self1)
  have w: "mondayWeek z = q"
    unfolding mondayWeek_def q_def ..
  show ?thesis
  proof (cases "r = 6")
    case True
    then have "getDay z = 0" unfolding day by simp
    then show ?thesis
      unfolding startOfWeek_def Let_def w using z True by simp
  next
    case False
    with r have "getDay z = r + 1" unfolding day by simp
    then show ?thesis
      unfolding startOfWeek_def Let_def w using z r by simp
  qed
qed

lemma differenceInCalendarWeeks_spec:
  "differenceInCalendarWeeks target origin = spec_weeksBetween origin target"
proof -
  have "(2 * (7 * a - 3 - (7 * b - 3)) + 7) div 14 = a - b" for a b :: int
  proof -
    have "2 * (7 * a - 3 - (7 * b - 3)) + 7 = 7 + (a - b) * 14" by simp
    then show ?thesis by (simp only: div_mult_self2) simp
  qed
  then show ?thesis
    unfolding differenceInCalendarWeeks_def spec_weeksBetween_def startOfWeek_mondayWeek .
qed

lemma js_rem_2: "(js_rem a 2 = 0) = even a"
  unfolding js_rem_def by (auto simp: sgn_if)

lemma shouldShow_exception: "isException e d \<Longrightarrow> \<not> shouldShowOnDate e d"
  by (simp add: shouldShowOnDate_def)


lemma shouldShow_recurring:
  assumes "parseISO (fecha e) = Some origin" "parseISO d = Some target"
    and "\<not> isException e d" "recurrenceOrNone e \<noteq> none" "d \<noteq> fecha e"
  shows "shouldShowOnDate e d =
     (\<not> target < origin \<and>
       (case recurrenceOrNone e of
                  daily \<Rightarrow> True
                | weekly \<Rightarrow> getDay target = getDay origin
                | biweekly \<Rightarrow> getDay target = getDay origin \<and> even (differenceInCalendarWeeks target origin)
                | monthly \<Rightarrow> getDate target = getDate origin
                | yearly \<Rightarrow>
                    getDate target = getDate origin \<and> getMonth target = getMonth origin
                | none \<Rightarrow> False))"
proof -
  have ne: "fecha e \<noteq> []" "d \<noteq> []"
    using assms(1,2) by (auto simp: parseISO_def)
  show ?thesis
    using assms ne
    by (cases "recurrenceOrNone e") (auto simp: shouldShowOnDate_def js_rem_2)
qed


text \<open>Values of the date functions on the dates of the examples.\<close>

lemma parse_2024_01_31: "parseISO ''2024-01-31'' = Some 19753"
  by code_simp

lemma parse_2024_02_29: "parseISO ''2024-02-29'' = Some 19782"
  by code_simp

lemma parse_2024_03_31: "parseISO ''2024-03-31'' = Some 19813"
  by code_simp

lemma getDate_19753: "getDate 19753 = 31"
  by code_simp

lemma getDate_19782: "getDate 19782 = 29"
  by code_simp

lemma getDate_19813: "getDate 19813 = 31"
  by code_simp

section \<open>Claims about the occurrence predicate\<close>

text \<open>
  Claim C1. For every event \<open>e\<close> and every date string \<open>d\<close> listed in the exception dates
  of \<open>e\<close>, \<open>shouldShowOnDate e d\<close> is false, also when \<open>d\<close> is the origin date of \<open>e\<close>: the
  exception check comes before the exact match.
\<close>

theorem exception_suppresses:
  "exception_dates e = Some xs \<Longrightarrow> d \<in> set xs \<Longrightarrow> \<not> shouldShowOnDate e d"
  by (simp add: shouldShowOnDate_def isException_def)

theorem exception_suppresses_witness:
  "exception_dates originExcepted = Some [''2024-01-01''] \<and>
   fecha originExcepted = ''2024-01-01'' \<and> ''2024-01-01'' \<in> set [''2024-01-01''] \<and>
   \<not> shouldShowOnDate originExcepted ''2024-01-01''"
  using exception_suppresses [of originExcepted "[''2024-01-01'']" "''2024-01-01''"]
  by (simp add: example_events)




text \<open>
  Claim C3, as stated: a non-recurring event occurs on its origin date. It fails for an
  event whose origin date is listed in its own exception dates.
\<close>

theorem single_event_counterexample:
  "recurrenceOrNone singleExcepted = none \<and>
   \<not> shouldShowOnDate singleExcepted (fecha singleExcepted)"
  by (simp add: example_events shouldShowOnDate_def isException_def recurrenceOrNone_def)

text \<open>
  Claim C3, amended. For every non-recurring event \<open>e\<close> (recurrence \<open>none\<close> or absent),
  \<open>shouldShowOnDate e d\<close> is false for every \<open>d\<close> other than the origin date, and on the
  origin date it is true exactly when the origin date is a non-empty string that is not
  listed in the exception dates of \<open>e\<close>.
\<close>

theorem single_event_only_origin:
  "recurrenceOrNone e = none \<Longrightarrow>
     shouldShowOnDate e d = (d = fecha e \<and> fecha e \<noteq> [] \<and> \<not> isException e d)"
  by (auto simp: shouldShowOnDate_def)

theorem single_event_only_origin_witness:
  "recurrenceOrNone (mkEvento ''e6'' ''2024-06-01'' None None None) = none \<and>
   shouldShowOnDate (mkEvento ''e6'' ''2024-06-01'' None None None) ''2024-06-01'' \<and>
   \<not> shouldShowOnDate (mkEvento ''e6'' ''2024-06-01'' None None None) ''2024-06-02''"
proof -
  let ?e = "mkEvento ''e6'' ''2024-06-01'' None None None"
  have h: "recurrenceOrNone ?e = none"
    by (simp add: mkEvento_def recurrenceOrNone_def)
  show ?thesis
    using single_event_only_origin [OF h, of "''2024-06-01''"]
      single_event_only_origin [OF h, of "''2024-06-02''"] h
    by (simp add: mkEvento_def isException_def)
qed

text \<open>
  Claim C6. For every biweekly event with a valid origin date and every valid target date
  on or after the origin that is not excepted, \<open>shouldShowOnDate\<close> is true if and only if
  the target has the weekday of the origin and the number of Monday-starting calendar
  weeks between origin and target is even. For the origin 2024-01-01, a Monday, the
  event does not occur on 2024-01-08 and occurs on 2024-01-15.
\<close>

theorem biweekly_even_weeks:
  "(\<forall>e d origin target.
      recurrence e = Some biweekly \<and> parseISO (fecha e) = Some origin \<and>
      parseISO d = Some target \<and> origin \<le> target \<and> \<not> isException e d \<longrightarrow>
      shouldShowOnDate e d =
        (getDay target = getDay origin \<and> even (spec_weeksBetween origin target))) \<and>
   (\<forall>e. recurrence e = Some biweekly \<and> fecha e = ''2024-01-01'' \<and>
        \<not> isException e ''2024-01-08'' \<and> \<not> isException e ''2024-01-15'' \<longrightarrow>
        map_option getDay (parseISO (fecha e)) = Some 1 \<and>
        \<not> shouldShowOnDate e ''2024-01-08'' \<and> shouldShowOnDate e ''2024-01-15'')"
proof (intro conjI allI impI)
  fix e d origin target
  assume a: "recurrence e = Some biweekly \<and> parseISO (fecha e) = Some origin \<and>
      parseISO d = Some target \<and> origin \<le> target \<and> \<not> isException e d"
  then have r: "recurrenceOrNone e = biweekly"
    by (simp add: recurrenceOrNone_def)
  show "shouldShowOnDate e d =
        (getDay target = getDay origin \<and> even (spec_weeksBetween origin target))"
  proof (cases "d = fecha e")
    case True
    with a have "origin = target" by auto
    moreover have "shouldShowOnDate e d"
      using a True by (auto simp: shouldShowOnDate_def parseISO_def)
    ultimately show ?thesis by (simp add: spec_weeksBetween_def)
  next
    case False
    with a r show ?thesis
      by (simp add: shouldShow_recurring [of e origin d target] differenceInCalendarWeeks_spec)
  qed
next
  fix e
  assume a: "recurrence e = Some biweekly \<and> fecha e = ''2024-01-01'' \<and>
        \<not> isException e ''2024-01-08'' \<and> \<not> isException e ''2024-01-15''"
  then show "map_option getDay (parseISO (fecha e)) = Some 1"
    by (simp add: predicate_defs)
  from a show "\<not> shouldShowOnDate e ''2024-01-08''"
    by (simp add: predicate_defs)
  from a show "shouldShowOnDate e ''2024-01-15''"
    by (simp add: predicate_defs)
qed

theorem biweekly_even_weeks_witness:
  "shouldShowOnDate biweeklyMonday ''2024-01-29'' \<and>
   \<not> shouldShowOnDate biweeklyMonday ''2024-01-08'' \<and>
   shouldShowOnDate biweeklyMonday ''2024-01-15''"
proof -
  have o: "parseISO (fecha biweeklyMonday) = Some 19723"
    by (simp add: example_events predicate_defs)
  have t: "parseISO ''2024-01-29'' = Some 19751"
    by (simp add: predicate_defs)
  have x: "\<not> isException biweeklyMonday d" for d
    by (simp add: example_events isException_def)
  have r: "recurrence biweeklyMonday = Some biweekly" "fecha biweeklyMonday = ''2024-01-01''"
    by (simp_all add: example_events)
  have g: "getDay 19751 = getDay 19723 \<and> even (spec_weeksBetween 19723 19751)"
    by (simp add: getDay_def spec_weeksBetween_def mondayWeek_def)
  have "shouldShowOnDate biweeklyMonday ''2024-01-29'' =
       (getDay 19751 = getDay 19723 \<and> even (spec_weeksBetween 19723 19751))"
    using biweekly_even_weeks [THEN conjunct1, rule_format,
        where e = biweeklyMonday and d = "''2024-01-29''" and origin = 19723 and target = 19751]
      o t x r by simp
  with g have "shouldShowOnDate biweeklyMonday ''2024-01-29''" by simp
  moreover have
    "\<not> shouldShowOnDate biweeklyMonday ''2024-01-08'' \<and> shouldShowOnDate biweeklyMonday ''2024-01-15''"
    using biweekly_even_weeks [THEN conjunct2, rule_format, where e = biweeklyMonday] x r
    by simp
  ultimately show ?thesis by simp
qed


text \<open>
  Claim C7. For every monthly event with a valid origin date and every valid target date
  on or after the origin that is not excepted, \<open>shouldShowOnDate\<close> is true if and only if
  the target has the day of the month of the origin. Nothing rolls over: for the origin
  2024-01-31 the event does not occur on 2024-02-29 and occurs on 2024-03-31.
\<close>

theorem monthly_same_day_of_month:
  "(\<forall>e d origin target.
      recurrence e = Some monthly \<and> parseISO (fecha e) = Some origin \<and>
      parseISO d = Some target \<and> origin \<le> target \<and> \<not> isException e d \<longrightarrow>
      shouldShowOnDate e d = (getDate target = getDate origin)) \<and>
   (\<forall>e. recurrence e = Some monthly \<and> fecha e = ''2024-01-31'' \<and>
        \<not> isException e ''2024-02-29'' \<and> \<not> isException e ''2024-03-31'' \<longrightarrow>
        map_option getDate (parseISO (fecha e)) = Some 31 \<and>
        map_option getDate (parseISO ''2024-02-29'') = Some 29 \<and>
        \<not> shouldShowOnDate e ''2024-02-29'' \<and> shouldShowOnDate e ''2024-03-31'')"
proof (intro conjI allI impI)
  fix e d origin target
  assume a: "recurrence e = Some monthly \<and> parseISO (fecha e) = Some origin \<and>
      parseISO d = Some target \<and> origin \<le> target \<and> \<not> isException e d"
  then have r: "recurrenceOrNone e = monthly"
    by (simp add: recurrenceOrNone_def)
  show "shouldShowOnDate e d = (getDate target = getDate origin)"
  proof (cases "d = fecha e")
    case True
    with a have "origin = target" by auto
    moreover have "shouldShowOnDate e d"
      using a True by (auto simp: shouldShowOnDate_def parseISO_def)
    ultimately show ?thesis by simp
  next
    case False
    with a r show ?thesis
      by (simp add: shouldShow_recurring [of e origin d target])
  qed
next
  fix e
  assume a: "recurrence e = Some monthly \<and> fecha e = ''2024-01-31'' \<and>
        \<not> isException e ''2024-02-29'' \<and> \<not> isException e ''2024-03-31''"
  then have r: "recurrenceOrNone e = monthly"
    by (simp add: recurrenceOrNone_def)
  have o: "parseISO (fecha e) = Some 19753"
    using a parse_2024_01_31 by simp
  from o show "map_option getDate (parseISO (fecha e)) = Some 31"
    by (simp add: getDate_19753)
  show "map_option getDate (parseISO ''2024-02-29'') = Some 29"
    by (simp add: parse_2024_02_29 getDate_19782)
  from a r o show "\<not> shouldShowOnDate e ''2024-02-29''"
    by (simp add: shouldShow_recurring [OF o parse_2024_02_29] getDate_19753 getDate_19782)
  from a r o show "shouldShowOnDate e ''2024-03-31''"
    by (simp add: shouldShow_recurring [OF o parse_2024_03_31] getDate_19753 getDate_19813)
qed

theorem monthly_same_day_of_month_witness:
  "\<not> shouldShowOnDate monthlyLastDay ''2024-04-30'' \<and>
   \<not> shouldShowOnDate monthlyLastDay ''2024-02-29'' \<and>
   shouldShowOnDate monthlyLastDay ''2024-03-31''"
proof -
  have o: "parseISO (fecha monthlyLastDay) = Some 19753"
    by (simp add: example_events parse_2024_01_31)
  have t: "parseISO ''2024-04-30'' = Some 19843"
    by code_simp
  have x: "\<not> isException monthlyLastDay d" for d
    by (simp add: example_events isException_def)
  have r: "recurrence monthlyLastDay = Some monthly" "fecha monthlyLastDay = ''2024-01-31''"
    by (simp_all add: example_events)
  have g: "getDate 19843 \<noteq> getDate 19753"
    by code_simp
  have "shouldShowOnDate monthlyLastDay ''2024-04-30'' = (getDate 19843 = getDate 19753)"
    using monthly_same_day_of_month [THEN conjunct1, rule_format,
        where e = monthlyLastDay and d = "''2024-04-30''" and origin = 19753 and target = 19843]
      o t x r by simp
  with g have "\<not> shouldShowOnDate monthlyLastDay ''2024-04-30''" by simp
  moreover have
    "\<not> shouldShowOnDate monthlyLastDay ''2024-02-29'' \<and> shouldShowOnDate monthlyLastDay ''2024-03-31''"
    using monthly_same_day_of_month [THEN conjunct2, rule_format, where e = monthlyLastDay] x r
    by simp
  ultimately show ?thesis by simp
qed

section \<open>Claims about the window projector\<close>

lemma markRange_lookup:
  "markRange evs start n s =
     (if (\<exists>i<n. s = format (addDays start (int i))) \<and> (\<exists>e\<in>set evs. shouldShowOnDate e s)
      then Some \<lparr>marked = True, dotColor = COLORS_primary, selectedColor = None, selected = None\<rparr>
      else None)"
proof (induction n arbitrary: s)
  case 0
  show ?case by (simp add: markRange_def)
next
  case (Suc n)
  have step: "markRange evs start (Suc n) = markDay evs start (markRange evs start n) n"
    by (simp add: markRange_def)
  let ?s0 = "format (addDays start (int n))"
  let ?m = "\<lparr>marked = True, dotColor = COLORS_primary, selectedColor = None, selected = None\<rparr>"
  have day: "markDay evs start m n =
      (if (\<exists>e\<in>set evs. shouldShowOnDate e ?s0) then m(?s0 \<mapsto> ?m) else m)" for m
    by (simp add: markDay_def Let_def list_ex_iff)
  have ex: "(\<exists>i<Suc n. t = format (addDays start (int i))) =
      ((\<exists>i<n. t = format (addDays start (int i))) \<or> t = ?s0)" for t
    by (metis less_Suc_eq)
  show ?case
  proof (cases "s = ?s0")
    case True
    show ?thesis
      unfolding step day ex True by (simp add: Suc.IH)
  next
    case False
    then show ?thesis
      unfolding step day ex by (simp add: Suc.IH)
  qed
qed

lemma isMarked_markRange:
  "isMarked (markRange evs start n) s =
     ((\<exists>i<n. s = format (addDays start (int i))) \<and> (\<exists>e\<in>set evs. shouldShowOnDate e s))"
  by (simp add: isMarked_def markRange_lookup)

lemma isMarked_in_range:
  "i < n \<Longrightarrow> isMarked (markRange evs start n) (format (addDays start (int i))) =
     (\<exists>e\<in>set evs. shouldShowOnDate e (format (addDays start (int i))))"
  unfolding isMarked_markRange by blast

text \<open>
  Claim C8. For every collection of events and every date \<open>d\<close> among the \<open>n\<close> consecutive
  dates from \<open>rangeStart\<close>, the map marks \<open>d\<close> if and only if \<open>shouldShowOnDate e d\<close> holds
  for at least one event \<open>e\<close> of the collection; a date on which no event occurs is not
  marked. The same holds for \<open>eventMarks\<close>, whose range is the 90 days from 45 days
  before today.
\<close>

theorem marks_iff_some_event_occurs:
  "(\<forall>i<n. isMarked (markRange evs rangeStart n) (format (addDays rangeStart (int i))) =
            (\<exists>e\<in>set evs. shouldShowOnDate e (format (addDays rangeStart (int i))))) \<and>
   (\<forall>s. (\<forall>e\<in>set evs. \<not> shouldShowOnDate e s) \<longrightarrow> \<not> isMarked (markRange evs rangeStart n) s) \<and>
   (\<forall>i<RANGE_DAYS. isMarked (eventMarks evs today) (format (addDays (addDays today (- 45)) (int i))) =
            (\<exists>e\<in>set evs. shouldShowOnDate e (format (addDays (addDays today (- 45)) (int i)))))"
proof (intro conjI allI impI)
  fix i assume "i < n"
  then show "isMarked (markRange evs rangeStart n) (format (addDays rangeStart (int i))) =
            (\<exists>e\<in>set evs. shouldShowOnDate e (format (addDays rangeStart (int i))))"
    by (rule isMarked_in_range)
next
  fix s assume "\<forall>e\<in>set evs. \<not> shouldShowOnDate e s"
  then show "\<not> isMarked (markRange evs rangeStart n) s"
    unfolding isMarked_markRange by blast
next
  fix i assume "i < RANGE_DAYS"
  then show "isMarked (eventMarks evs today) (format (addDays (addDays today (- 45)) (int i))) =
            (\<exists>e\<in>set evs. shouldShowOnDate e (format (addDays (addDays today (- 45)) (int i))))"
    unfolding eventMarks_def by (rule isMarked_in_range)
qed

theorem marks_iff_some_event_occurs_witness:
  "isMarked (markRange [biweeklyMonday] 19723 15) ''2024-01-15'' \<and>
   \<not> isMarked (markRange [biweeklyMonday] 19723 15) ''2024-01-08''"
proof -
  have f14: "format (addDays 19723 (int 14)) = ''2024-01-15''"
    by code_simp
  have f7: "format (addDays 19723 (int 7)) = ''2024-01-08''"
    by code_simp
  have yes: "shouldShowOnDate biweeklyMonday ''2024-01-15''"
    by (simp add: example_events predicate_defs)
  have no: "\<not> shouldShowOnDate biweeklyMonday ''2024-01-08''"
    by (simp add: example_events predicate_defs)
  have in_range: "(14::nat) < 15" "(7::nat) < 15"
    by simp_all
  note inst = marks_iff_some_event_occurs [of 15 "[biweeklyMonday]" 19723, THEN conjunct1, rule_format]
  have a: "isMarked (markRange [biweeklyMonday] 19723 15) ''2024-01-15'' =
      (\<exists>e\<in>set [biweeklyMonday]. shouldShowOnDate e ''2024-01-15'')"
    using inst [OF in_range(1)] unfolding f14 .
  have b: "isMarked (markRange [biweeklyMonday] 19723 15) ''2024-01-08'' =
      (\<exists>e\<in>set [biweeklyMonday]. shouldShowOnDate e ''2024-01-08'')"
    using inst [OF in_range(2)] unfolding f7 .
  from yes have y: "\<exists>e\<in>set [biweeklyMonday]. shouldShowOnDate e ''2024-01-15''"
    by simp
  from no have n: "\<not> (\<exists>e\<in>set [biweeklyMonday]. shouldShowOnDate e ''2024-01-08'')"
    by simp
  show ?thesis
    using a b y n by blast
qed

section \<open>Facts about the sort\<close>

lemma localeCompare_less: "(localeCompare a b < 0) = (a < b)"
  by (simp add: localeCompare_def)

lemma localeCompare_zero: "(localeCompare a b = 0) = (a = b)"
  by (auto simp: localeCompare_def)

lemma compareProjected_less: "(compareProjected a b < 0) = (sortKey a < sortKey b)"
  by (auto simp: compareProjected_def sortKey_def Let_def localeCompare_def)

lemma set_insertSorted: "set (insertSorted cmp x ys) = insert x (set ys)"
  by (induction ys) auto

lemma sorted_insertSorted:
  "sorted (map sortKey ys) \<Longrightarrow> sorted (map sortKey (insertSorted compareProjected x ys))"
proof (induction ys)
  case Nil
  show ?case by simp
next
  case (Cons y ys)
  show ?case
  proof (cases "compareProjected x y < 0")
    case True
    then have "sortKey x < sortKey y" by (simp add: compareProjected_less)
    with Cons.prems show ?thesis using True by (auto simp: less_imp_le order.trans)
  next
    case False
    then have "sortKey y \<le> sortKey x" by (simp add: compareProjected_less)
    with Cons show ?thesis using False by (auto simp: set_insertSorted)
  qed
qed

lemma foldl_insertSorted:
  "sorted (map sortKey acc) \<Longrightarrow>
     sorted (map sortKey (foldl (\<lambda>acc x. insertSorted compareProjected x acc) acc xs)) \<and>
     set (foldl (\<lambda>acc x. insertSorted compareProjected x acc) acc xs) = set acc \<union> set xs"
proof (induction xs arbitrary: acc)
  case Nil
  then show ?case by simp
next
  case (Cons x xs)
  from Cons.IH [OF sorted_insertSorted [OF Cons.prems, of x]]
  show ?case by (simp add: set_insertSorted)
qed

lemma sorted_sortWith: "sorted (map sortKey (sortWith compareProjected xs))"
  using foldl_insertSorted [of "[]" xs] by (simp add: sortWith_def)

lemma set_sortWith: "set (sortWith compareProjected xs) = set xs"
  using foldl_insertSorted [of "[]" xs] by (simp add: sortWith_def)

lemma sorted_dates_sortWith: "sorted (map projectedDate (sortWith compareProjected xs))"
proof -
  have "sorted (map fst (map sortKey (sortWith compareProjected xs)))"
    using sorted_sortWith [of xs]
    by (simp only: sorted_map) (auto simp: sorted_wrt_map less_eq_prod_def elim: sorted_wrt_mono_rel [rotated])
  then show ?thesis by (simp add: sortKey_def comp_def)
qed

lemma sorted_concat_part:
  "sorted (concat xss) \<Longrightarrow> xs \<in> set xss \<Longrightarrow> sorted xs" for xss :: "('a :: linorder) list list"
  by (induction xss) (auto simp: sorted_append)

lemma sorted_group_starts:
  assumes "sorted (map sortKey ps)" and "\<forall>p\<in>set ps. projectedDate p = d"
  shows "sorted (map startOrEmpty ps)"
  using assms
proof (induction ps)
  case Nil
  show ?case by simp
next
  case (Cons p ps)
  then show ?case by (auto simp: sortKey_def)
qed

section \<open>Facts about the grouping loop\<close>

lemma pushToLast_snoc:
  "pushToLast (gs @ [g]) p = Inr (gs @ [g\<lparr>events := events g @ [p]\<rparr>])"
  by (simp add: pushToLast_def)

lemma strict_sorted_le_last:
  "sorted_wrt (<) xs \<Longrightarrow> x \<in> set xs \<Longrightarrow> x \<le> last xs" for xs :: "string list"
  by (induction xs) (auto simp: less_imp_le)

lemma wellGrouped_new:
  assumes "wellGrouped grouped" and "grouped \<noteq> [] \<longrightarrow> date (last grouped) < d"
    and "projectedDate p = d"
  shows "wellGrouped (grouped @ [\<lparr>date = d, label = l, events = [p]\<rparr>])"
proof -
  have "x < d" if "x \<in> set (map date grouped)" for x
  proof -
    from that have ne: "grouped \<noteq> []" by auto
    have "x \<le> last (map date grouped)"
      using assms(1) that by (auto simp: wellGrouped_def intro: strict_sorted_le_last)
    also have "last (map date grouped) = date (last grouped)"
      using ne by (simp add: last_map)
    also have "\<dots> < d" using assms(2) ne by simp
    finally show ?thesis .
  qed
  then show ?thesis
    using assms(1,3) by (auto simp: wellGrouped_def sorted_wrt_append)
qed

lemma wellGrouped_push:
  assumes "wellGrouped (gs @ [g])" and "projectedDate p = date g"
  shows "wellGrouped (gs @ [g\<lparr>events := events g @ [p]\<rparr>])"
  using assms by (auto simp: wellGrouped_def sorted_wrt_append)

lemma groupLoop_result:
  assumes "groupLoop mk cur grouped ps = Inr res"
    and "sorted (map projectedDate ps)"
    and "\<forall>p\<in>set ps. cur \<le> projectedDate p"
    and "grouped \<noteq> [] \<longrightarrow> date (last grouped) = cur"
    and "wellGrouped grouped"
  shows "wellGrouped res \<and> concat (map events res) = concat (map events grouped) @ ps"
  using assms
proof (induction ps arbitrary: cur grouped)
  case Nil
  then show ?case by simp
next
  case (Cons p ps)
  let ?d = "projectedDate p"
  have later: "\<forall>q\<in>set ps. ?d \<le> projectedDate q" and sorted_ps: "sorted (map projectedDate ps)"
    using Cons.prems(2) by auto
  show ?case
  proof (cases "?d = cur")
    case False
    then obtain l where l: "mk ?d = Some l"
      using Cons.prems(1) by (auto split: option.splits)
    let ?g = "\<lparr>date = ?d, label = l, events = []\<rparr>"
    let ?grouped = "grouped @ [?g\<lparr>events := events ?g @ [p]\<rparr>]"
    have run: "groupLoop mk ?d ?grouped ps = Inr res"
      using Cons.prems(1) False l by (simp add: pushToLast_snoc)
    have "cur \<le> ?d" using Cons.prems(3) by simp
    with False have "cur < ?d" by simp
    then have wg: "wellGrouped ?grouped"
      using wellGrouped_new [OF Cons.prems(5), of ?d p l] Cons.prems(4) by simp
    have "wellGrouped res \<and> concat (map events res) = concat (map events ?grouped) @ ps"
      by (rule Cons.IH [OF run sorted_ps later _ wg]) simp
    then show ?thesis by simp
  next
    case True
    have ne: "grouped \<noteq> []"
      using Cons.prems(1) True by (auto simp: pushToLast_def)
    then obtain gs g where grouped: "grouped = gs @ [g]"
      by (cases grouped rule: rev_cases) auto
    let ?grouped = "gs @ [g\<lparr>events := events g @ [p]\<rparr>]"
    have dg: "date g = cur" using Cons.prems(4) grouped by simp
    have run: "groupLoop mk cur ?grouped ps = Inr res"
      using Cons.prems(1) True grouped by (simp add: pushToLast_snoc)
    have wg: "wellGrouped ?grouped"
      using wellGrouped_push [of gs g p] Cons.prems(5) grouped dg True by simp
    have later': "\<forall>q\<in>set ps. cur \<le> projectedDate q"
      using Cons.prems(3) by simp
    have "wellGrouped res \<and> concat (map events res) = concat (map events ?grouped) @ ps"
      by (rule Cons.IH [OF run sorted_ps later' _ wg]) (simp add: dg)
    then show ?thesis by (simp add: grouped)
  qed
qed

lemma upcomingEvents_result:
  assumes "upcomingEvents mk evs todayDate n = Inr gs"
  shows "wellGrouped gs"
    and "concat (map events gs) =
           sortWith compareProjected
             (singleEvents evs (format todayDate) @ recurringProjection evs todayDate n)"
proof -
  let ?ps = "sortWith compareProjected
             (singleEvents evs (format todayDate) @ recurringProjection evs todayDate n)"
  have run: "groupLoop mk [] [] ?ps = Inr gs"
    using assms by (simp add: upcomingEvents_def Let_def)
  have "wellGrouped []"
    by (simp add: wellGrouped_def)
  with groupLoop_result [OF run sorted_dates_sortWith]
  have "wellGrouped gs \<and> concat (map events gs) = concat (map events []) @ ?ps"
    by simp
  then show "wellGrouped gs" and "concat (map events gs) = ?ps" by simp_all
qed

lemma flattened_sortKey:
  "\<forall>g\<in>set gs. \<forall>p\<in>set (events g). projectedDate p = date g \<Longrightarrow>
     flattened gs = map sortKey (concat (map events gs))"
  by (induction gs) (auto simp: flattened_def sortKey_def)

text \<open>
  The loop never reads the last group of an empty array: the aggregator returns whenever
  the label can be rendered for every projected date.
\<close>

lemma format_not_empty: "format z \<noteq> []"
  by (simp add: format_def Let_def)

lemma groupLoop_returns:
  assumes "\<forall>p\<in>set ps. mk (projectedDate p) \<noteq> None"
    and "grouped = [] \<longrightarrow> cur = [] \<and> (\<forall>p\<in>set ps. projectedDate p \<noteq> [])"
  shows "\<exists>res. groupLoop mk cur grouped ps = Inr res"
  using assms
proof (induction ps arbitrary: cur grouped)
  case Nil
  show ?case by simp
next
  case (Cons p ps)
  from Cons.prems(1) obtain l where l: "mk (projectedDate p) = Some l" by auto
  show ?case
  proof (cases "projectedDate p = cur")
    case False
    have "\<exists>res. groupLoop mk (projectedDate p)
        (grouped @ [\<lparr>date = projectedDate p, label = l, events = [] @ [p]\<rparr>]) ps = Inr res"
      using Cons.prems(1) by (intro Cons.IH) auto
    then show ?thesis using False l by (simp add: pushToLast_snoc)
  next
    case True
    with Cons.prems(2) have "grouped \<noteq> []" by auto
    then obtain gs g where grouped: "grouped = gs @ [g]"
      by (cases grouped rule: rev_cases) auto
    have "\<exists>res. groupLoop mk cur (gs @ [g\<lparr>events := events g @ [p]\<rparr>]) ps = Inr res"
      using Cons.prems(1) by (intro Cons.IH) auto
    then show ?thesis using True grouped by (simp add: pushToLast_snoc)
  qed
qed

section \<open>Where the projected occurrences come from\<close>

lemma in_singleEvents:
  "p \<in> set (singleEvents evs t) \<Longrightarrow>
     evt p \<in> set evs \<and> recurrenceOrNone (evt p) = none \<and>
     projectedDate p = fecha (evt p) \<and> t < fecha (evt p)"
  by (auto simp: singleEvents_def)

lemma in_recurringProjection:
  assumes "p \<in> set (recurringProjection evs todayDate n)"
  shows "evt p \<in> set evs \<and> recurrenceOrNone (evt p) \<noteq> none \<and>
     (\<exists>i. 1 \<le> i \<and> i \<le> n \<and> projectedDate p = format (addDays todayDate (int i))) \<and>
     shouldShowOnDate (evt p) (projectedDate p)"
proof -
  let ?rec = "filter (\<lambda>e. recurrenceOrNone e \<noteq> none) evs"
  from assms obtain i where i: "i \<in> set [1..<Suc n]" "p \<in> set (projectDay ?rec todayDate i)"
    by (auto simp: recurringProjection_def Let_def split: if_splits)
  from i(2) have "evt p \<in> set ?rec" "projectedDate p = format (addDays todayDate (int i))"
    "shouldShowOnDate (evt p) (projectedDate p)"
    by (auto simp: projectDay_def Let_def)
  moreover from i(1) have "1 \<le> i \<and> i \<le> n" by auto
  ultimately show ?thesis by auto
qed

lemma upcomingEvents_returns:
  assumes "\<forall>e\<in>set evs. recurrenceOrNone e = none \<and> format todayDate < fecha e \<longrightarrow>
             mk (fecha e) \<noteq> None"
    and "\<forall>i. 1 \<le> i \<and> i \<le> n \<longrightarrow> mk (format (addDays todayDate (int i))) \<noteq> None"
  shows "\<exists>gs. upcomingEvents mk evs todayDate n = Inr gs"
proof -
  let ?ps = "singleEvents evs (format todayDate) @ recurringProjection evs todayDate n"
  have "mk (projectedDate p) \<noteq> None \<and> projectedDate p \<noteq> []" if "p \<in> set ?ps" for p
  proof -
    from that consider "p \<in> set (singleEvents evs (format todayDate))"
      | "p \<in> set (recurringProjection evs todayDate n)" by auto
    then show ?thesis
    proof cases
      case 1
      from in_singleEvents [OF 1] assms(1) show ?thesis by auto
    next
      case 2
      from in_recurringProjection [OF 2] obtain i where
        i: "1 \<le> i \<and> i \<le> n" "projectedDate p = format (addDays todayDate (int i))"
        by blast
      from i(1) assms(2) have "mk (format (addDays todayDate (int i))) \<noteq> None"
        by blast
      then show ?thesis
        unfolding i(2) using format_not_empty by blast
    qed
  qed
  then have "\<exists>res. groupLoop mk [] [] (sortWith compareProjected ?ps) = Inr res"
    by (intro groupLoop_returns) (auto simp: set_sortWith)
  then show ?thesis by (simp add: upcomingEvents_def Let_def)
qed

lemma group_date_projected:
  assumes "upcomingEvents mk evs todayDate n = Inr gs" and "g \<in> set gs"
  shows "\<exists>p. p \<in> set (events g) \<and> projectedDate p = date g \<and>
     (p \<in> set (singleEvents evs (format todayDate)) \<or>
      p \<in> set (recurringProjection evs todayDate n))"
proof -
  from upcomingEvents_result(1) [OF assms(1)] assms(2)
  obtain p where p: "p \<in> set (events g)" "projectedDate p = date g"
    by (cases "events g") (auto simp: wellGrouped_def)
  from p(1) assms(2) have "p \<in> set (concat (map events gs))" by auto
  then have "p \<in> set (singleEvents evs (format todayDate) @ recurringProjection evs todayDate n)"
    unfolding upcomingEvents_result(2) [OF assms(1)] set_sortWith .
  with p show ?thesis by auto
qed

lemma shown_projected:
  assumes "upcomingEvents mk evs todayDate n = Inr gs" and "g \<in> set gs" and "p \<in> set (events g)"
  shows "projectedDate p = date g \<and>
     (p \<in> set (singleEvents evs (format todayDate)) \<or>
      p \<in> set (recurringProjection evs todayDate n))"
proof -
  from upcomingEvents_result(1) [OF assms(1)] assms(2,3)
  have d: "projectedDate p = date g"
    by (auto simp: wellGrouped_def)
  from assms(2,3) have "p \<in> set (concat (map events gs))" by auto
  then have "p \<in> set (singleEvents evs (format todayDate) @ recurringProjection evs todayDate n)"
    unfolding upcomingEvents_result(2) [OF assms(1)] set_sortWith .
  with d show ?thesis by auto
qed

text \<open>The occurrences of recurring events in the output respect the exception dates.\<close>

lemma recurring_exception_respected:
  assumes "upcomingEvents mkLabel evs todayDate n = Inr gs" and "g \<in> set gs"
    and "p \<in> set (events g)" and "recurrenceOrNone (evt p) \<noteq> none"
  shows "\<not> isException (evt p) (date g)"
proof -
  from shown_projected [OF assms(1-3)] have d: "projectedDate p = date g"
    and src: "p \<in> set (singleEvents evs (format todayDate)) \<or>
      p \<in> set (recurringProjection evs todayDate n)"
    by simp_all
  from src assms(4) have "p \<in> set (recurringProjection evs todayDate n)"
    by (auto dest: in_singleEvents)
  from in_recurringProjection [OF this] have "shouldShowOnDate (evt p) (projectedDate p)"
    by simp
  then show ?thesis
    unfolding d using shouldShow_exception by blast
qed

text \<open>The aggregator on the example agenda, two days ahead of 2023-12-30, and on a single
  event of 2024-06-01, thirty days ahead of 2024-01-01.\<close>

lemma agenda_upcoming: "upcomingEvents plainLabel agenda 19721 2 = Inr agendaGroups"
  by code_simp

lemma single_plain_upcoming:
  "upcomingEvents plainLabel [singlePlain] 19723 30 =
     Inr [\<lparr>date = ''2024-06-01'', label = ''2024-06-01'',
           events = [\<lparr>evt = singlePlain, projectedDate = ''2024-06-01''\<rparr>]\<rparr>]"
  by code_simp

lemma single_excepted_upcoming:
  "upcomingEvents plainLabel [singleExcepted] 19723 30 =
     Inr [\<lparr>date = ''2024-06-01'', label = ''2024-06-01'',
           events = [\<lparr>evt = singleExcepted, projectedDate = ''2024-06-01''\<rparr>]\<rparr>]"
  by code_simp

section \<open>Claims about the upcoming aggregator\<close>

text \<open>
  Claim C4, as stated: every group date lies after today and at most \<open>lookAhead\<close> days
  after it. It fails for a non-recurring event beyond the window: Paso A takes every
  non-recurring event whose date is after today. With today 2024-01-01 and thirty days
  ahead, the event of 2024-06-01 has a group.
\<close>

theorem upcoming_beyond_window_counterexample:
  "upcomingEvents plainLabel [singlePlain] 19723 30 =
     Inr [\<lparr>date = ''2024-06-01'', label = ''2024-06-01'',
           events = [\<lparr>evt = singlePlain, projectedDate = ''2024-06-01''\<rparr>]\<rparr>] \<and>
   format 19723 = ''2024-01-01'' \<and> parseISO ''2024-06-01'' = Some 19875 \<and>
   \<not> 19875 \<le> addDays 19723 (int 30)"
proof -
  have "format 19723 = ''2024-01-01''" by code_simp
  moreover have "parseISO ''2024-06-01'' = Some 19875" by code_simp
  moreover have "\<not> 19875 \<le> addDays 19723 (int 30)" by (simp add: addDays_def)
  ultimately show ?thesis using single_plain_upcoming by simp
qed

text \<open>
  Claim C4, amended. Every group date in the output is either the origin date of a
  non-recurring event whose origin date string is greater than today's string, with no
  upper bound, or the date \<open>today + i\<close> for an offset \<open>1 \<le> i \<le> lookAhead\<close> on which some
  recurring event occurs.
\<close>

theorem upcoming_group_dates:
  "upcomingEvents mkLabel evs todayDate n = Inr gs \<Longrightarrow>
     \<forall>g\<in>set gs.
       (\<exists>e\<in>set evs. recurrenceOrNone e = none \<and> fecha e = date g \<and>
          format todayDate < fecha e) \<or>
       (\<exists>i. 1 \<le> i \<and> i \<le> n \<and> date g = format (addDays todayDate (int i)) \<and>
          (\<exists>e\<in>set evs. recurrenceOrNone e \<noteq> none \<and> shouldShowOnDate e (date g)))"
proof
  fix g
  assume run: "upcomingEvents mkLabel evs todayDate n = Inr gs" and g: "g \<in> set gs"
  from group_date_projected [OF run g] obtain p where
    p: "projectedDate p = date g" and
    src: "p \<in> set (singleEvents evs (format todayDate)) \<or>
          p \<in> set (recurringProjection evs todayDate n)"
    by blast
  from src show "(\<exists>e\<in>set evs. recurrenceOrNone e = none \<and> fecha e = date g \<and>
          format todayDate < fecha e) \<or>
       (\<exists>i. 1 \<le> i \<and> i \<le> n \<and> date g = format (addDays todayDate (int i)) \<and>
          (\<exists>e\<in>set evs. recurrenceOrNone e \<noteq> none \<and> shouldShowOnDate e (date g)))"
  proof
    assume "p \<in> set (singleEvents evs (format todayDate))"
    from in_singleEvents [OF this] p show ?thesis by auto
  next
    assume "p \<in> set (recurringProjection evs todayDate n)"
    from in_recurringProjection [OF this] p show ?thesis by metis
  qed
qed

theorem upcoming_group_dates_witness:
  "upcomingEvents plainLabel agenda 19721 2 = Inr agendaGroups \<and>
   map date agendaGroups = [format (addDays 19721 (int 2)), fecha singlePlain] \<and>
   shouldShowOnDate dailyPlain (format (addDays 19721 (int 2))) \<and>
   recurrenceOrNone singlePlain = none \<and> format 19721 < fecha singlePlain"
proof -
  have day: "format (addDays 19721 (int 2)) = ''2024-01-01''"
    by code_simp
  have today: "format 19721 = ''2023-12-30''"
    by code_simp
  have dates: "map date agendaGroups = [''2024-01-01'', ''2024-06-01'']"
    by (simp add: agendaGroups_def)
  have single: "fecha singlePlain = ''2024-06-01''" "recurrenceOrNone singlePlain = none"
    by (simp_all add: example_events recurrenceOrNone_def)
  have occurs: "shouldShowOnDate dailyPlain ''2024-01-01''"
    by (simp add: example_events shouldShowOnDate_def isException_def)
  have window: "''2023-12-30'' < ''2024-06-01''"
    by simp
  have result: "upcomingEvents plainLabel agenda 19721 2 = Inr agendaGroups \<and>
      map date agendaGroups = [''2024-01-01'', ''2024-06-01''] \<and>
      shouldShowOnDate dailyPlain ''2024-01-01'' \<and> none = none \<and>
      ''2023-12-30'' < ''2024-06-01''"
    using upcoming_group_dates [OF agenda_upcoming] agenda_upcoming dates occurs window
    by simp
  show ?thesis
    unfolding day today single using result by simp
qed

text \<open>
  Claim C5, at the failing input. An event is never to be shown on one of its exception
  dates; Paso A does not consult them. The non-recurring event of 2024-06-01 that lists
  2024-06-01 as an exception date does not occur on that date for \<open>shouldShowOnDate\<close>,
  and is in the group of that date in the output of the aggregator.
\<close>

theorem single_event_shown_on_excepted_date:
  "exception_dates singleExcepted = Some [''2024-06-01''] \<and>
   \<not> shouldShowOnDate singleExcepted ''2024-06-01'' \<and>
   format 19723 = ''2024-01-01'' \<and>
   upcomingEvents plainLabel [singleExcepted] 19723 30 =
     Inr [\<lparr>date = ''2024-06-01'', label = ''2024-06-01'',
           events = [\<lparr>evt = singleExcepted, projectedDate = ''2024-06-01''\<rparr>]\<rparr>]"
proof -
  have "exception_dates singleExcepted = Some [''2024-06-01'']"
    by (simp add: example_events)
  moreover have "\<not> shouldShowOnDate singleExcepted ''2024-06-01''"
    by (simp add: example_events shouldShowOnDate_def isException_def)
  moreover have "format 19723 = ''2024-01-01''" by code_simp
  ultimately show ?thesis using single_excepted_upcoming by simp
qed

text \<open>
  Claim C9. The output, read as one list of pairs of group date and start time or empty
  string, is sorted in ascending order of the pairs (strings in the order of their
  character codes, pairs lexicographically): the group dates do not decrease, within a
  group the start times do not decrease, and an occurrence without a start time is
  never behind one with a non-empty start time.
\<close>

theorem upcoming_sorted:
  "upcomingEvents mkLabel evs todayDate n = Inr gs \<Longrightarrow>
     sorted (flattened gs) \<and> sorted (map date gs) \<and>
     (\<forall>g\<in>set gs. sorted (map startOrEmpty (events g)) \<and>
        (\<forall>i j. i < j \<and> j < length (events g) \<and> hora_inicio (evt (events g ! j)) = None \<longrightarrow>
           startOrEmpty (events g ! i) = []))"
proof (intro conjI ballI)
  assume run: "upcomingEvents mkLabel evs todayDate n = Inr gs"
  note wg = upcomingEvents_result(1) [OF run]
  note flat = upcomingEvents_result(2) [OF run]
  have same: "\<forall>g\<in>set gs. \<forall>p\<in>set (events g). projectedDate p = date g"
    using wg by (simp add: wellGrouped_def)
  have all_sorted: "sorted (map sortKey (concat (map events gs)))"
    unfolding flat by (rule sorted_sortWith)
  show "sorted (flattened gs)"
    unfolding flattened_sortKey [OF same] by (rule all_sorted)
  show "sorted (map date gs)"
    using wg by (simp add: wellGrouped_def strict_sorted_iff)
  fix g
  assume g: "g \<in> set gs"
  have "sorted (concat (map (\<lambda>g. map sortKey (events g)) gs))"
    using all_sorted by (simp add: map_concat comp_def)
  moreover have "map sortKey (events g) \<in> set (map (\<lambda>g. map sortKey (events g)) gs)"
    using g by simp
  ultimately have "sorted (map sortKey (events g))"
    by (rule sorted_concat_part)
  then show starts: "sorted (map startOrEmpty (events g))"
    using same g by (auto intro: sorted_group_starts)
  show "\<forall>i j. i < j \<and> j < length (events g) \<and> hora_inicio (evt (events g ! j)) = None \<longrightarrow>
           startOrEmpty (events g ! i) = []"
  proof (intro allI impI)
    fix i j
    assume a: "i < j \<and> j < length (events g) \<and> hora_inicio (evt (events g ! j)) = None"
    then have "map startOrEmpty (events g) ! i \<le> map startOrEmpty (events g) ! j"
      using starts by (intro sorted_nth_mono) auto
    moreover have "startOrEmpty (events g ! j) = []"
      using a by (simp add: startOrEmpty_def)
    ultimately show "startOrEmpty (events g ! i) = []"
      using a by simp
  qed
qed

theorem upcoming_sorted_witness:
  "upcomingEvents plainLabel agenda 19721 2 = Inr agendaGroups \<and>
   flattened agendaGroups =
     [(''2024-01-01'', []), (''2024-01-01'', ''10:00''), (''2024-06-01'', [])] \<and>
   sorted (flattened agendaGroups) \<and> sorted (map date agendaGroups)"
proof -
  have "flattened agendaGroups =
     [(''2024-01-01'', []), (''2024-01-01'', ''10:00''), (''2024-06-01'', [])]"
    by (simp add: flattened_def agendaGroups_def startOrEmpty_def example_events)
  then show ?thesis
    using upcoming_sorted [OF agenda_upcoming] agenda_upcoming by simp
qed

text \<open>
  Claim C10. Every group in the output has at least one occurrence, and the group dates
  increase strictly along the list, so that they are pairwise distinct.
\<close>

theorem upcoming_groups_distinct:
  "upcomingEvents mkLabel evs todayDate n = Inr gs \<Longrightarrow>
     (\<forall>g\<in>set gs. events g \<noteq> []) \<and> sorted_wrt (<) (map date gs) \<and> distinct (map date gs)"
  using upcomingEvents_result(1) [of mkLabel evs todayDate n gs]
  by (simp add: wellGrouped_def strict_sorted_iff)

theorem upcoming_groups_distinct_witness:
  "upcomingEvents plainLabel agenda 19721 2 = Inr agendaGroups \<and>
   map date agendaGroups = [''2024-01-01'', ''2024-06-01''] \<and>
   list_all (\<lambda>g. events g \<noteq> []) agendaGroups \<and>
   sorted_wrt (<) (map date agendaGroups) \<and> distinct (map date agendaGroups)"
proof -
  have "map date agendaGroups = [''2024-01-01'', ''2024-06-01'']"
    by (simp add: agendaGroups_def)
  then show ?thesis
    using upcoming_groups_distinct [OF agenda_upcoming] agenda_upcoming
    by (simp add: list_all_iff)
qed

end
